theory Spec2Isabelle
  imports
    Complex_Main
    "HOL-Library.Char_ord"
    "HOL-Library.List_Lexorder"
    "HOL-Library.AList"
begin

section \<open>Conventions of the embedding\<close>

text \<open>
  The development embeds two Python modules of the index builder:
  \<^verbatim>\<open>build/src/midi.py\<close> (timeline builder, pitch folder, contour quantizer) and
  \<^verbatim>\<open>build/src/build_non_user_data.py\<close> (alias cleaner, deduplicator, gatherer), with the
  constants of \<^verbatim>\<open>build/src/ff_config.py\<close>.

  \<^item> Python \<^verbatim>\<open>int\<close> is \<open>int\<close>.
  \<^item> Python \<^verbatim>\<open>str\<close> is \<open>string\<close>; the text is taken to be ASCII (the converter's
    event log and the lower-cased words that survive the letter filter are), so
    \<^verbatim>\<open>str.lower\<close>, \<^verbatim>\<open>str.isdigit\<close> and \<^verbatim>\<open>str.split\<close> are their ASCII versions.
  \<^item> Python \<^verbatim>\<open>float\<close> times are exact rationals \<open>rat\<close>: rounding of IEEE doubles is not
    modelled. At the default tempo 125 the scale factor is exactly \<open>1.0\<close> and every
    time computed from integer ticks is an integer-valued double, so the concrete
    evaluations below are also the values Python computes.
  \<^item> An exception is a value \<open>Inl e\<close> of a sum type.
\<close>

datatype error = ValueError | TypeError | ZeroDivisionError | IndexError | AssertionError

section \<open>Python string and integer primitives\<close>

definition is_digit :: "char \<Rightarrow> bool" where
  "is_digit c = (48 \<le> (of_char c :: nat) \<and> (of_char c :: nat) \<le> 57)"

definition is_space :: "char \<Rightarrow> bool" where
  \<comment> \<open>ASCII whitespace of \<^verbatim>\<open>str.split()\<close> and \<^verbatim>\<open>str.strip()\<close>.\<close>
  "is_space c = ((of_char c :: nat) \<in> {9, 10, 11, 12, 13, 28, 29, 30, 31, 32})"

definition isdigit :: "string \<Rightarrow> bool" where
  \<comment> \<open>\<^verbatim>\<open>str.isdigit()\<close>: non-empty and every character a digit.\<close>
  "isdigit s = (s \<noteq> [] \<and> list_all is_digit s)"

definition digit_val :: "char \<Rightarrow> int" where
  "digit_val c = int (of_char c) - 48"

definition digits_val :: "string \<Rightarrow> int" where
  "digits_val ds = foldl (\<lambda>a c. 10 * a + digit_val c) 0 ds"

fun digit_groups :: "string \<Rightarrow> bool" where
  \<comment> \<open>digits with single underscores between them, as an integer literal allows\<close>
  "digit_groups [] = False"
| "digit_groups [c] = is_digit c"
| "digit_groups (c # d # cs) =
     (is_digit c \<and> (if d = CHR ''_'' then digit_groups cs else digit_groups (d # cs)))"

definition strip :: "string \<Rightarrow> string" where
  "strip s = rev (dropWhile is_space (rev (dropWhile is_space s)))"

definition py_int :: "string \<Rightarrow> error + int" where
  \<comment> \<open>\<^verbatim>\<open>int(s)\<close> of a string: surrounding whitespace, an optional sign, decimal digits;
      \<^verbatim>\<open>ValueError\<close> otherwise.\<close>
  "py_int s =
     (let t = strip s;
          sgn_body = (case t of
                        [] \<Rightarrow> (1, t)
                      | c # r \<Rightarrow> if c = CHR ''-'' then (- 1, r)
                                 else if c = CHR ''+'' then (1, r) else (1, t))
      in if digit_groups (snd sgn_body)
         then Inr (fst sgn_body * digits_val (filter (\<lambda>c. c \<noteq> CHR ''_'') (snd sgn_body)))
         else Inl ValueError)"

definition py_int_opt :: "string option \<Rightarrow> error + int" where
  \<comment> \<open>\<^verbatim>\<open>int(None)\<close> raises \<^verbatim>\<open>TypeError\<close>.\<close>
  "py_int_opt v = (case v of None \<Rightarrow> Inl TypeError | Some s \<Rightarrow> py_int s)"

definition lower_char :: "char \<Rightarrow> char" where
  "lower_char c =
     (if 65 \<le> (of_char c :: nat) \<and> (of_char c :: nat) \<le> 90
      then char_of ((of_char c :: nat) + 32) else c)"

definition lower :: "string \<Rightarrow> string" where
  "lower s = map lower_char s"

section \<open>Configuration constants (ff\_config.py)\<close>

definition MIDI_HIGH :: int where "MIDI_HIGH = 95"
definition MIDI_LOW :: int where "MIDI_LOW = 48"
definition MIDI_NUM :: int where "MIDI_NUM = MIDI_HIGH - MIDI_LOW + 1"

definition ascii_letters :: string where
  "ascii_letters = ''abcdefghijklmnopqrstuvwxyzABCDEFGHIJKLMNOPQRSTUVWXYZ''"

definition MIDI_MAP :: string where
  "MIDI_MAP = take (nat MIDI_NUM) ascii_letters"

definition midi_map_get :: "int \<Rightarrow> error + char" where
  \<comment> \<open>\<^verbatim>\<open>MIDI_MAP[n]\<close>: a negative index counts from the end, out of range raises.\<close>
  "midi_map_get i =
     (let n = int (length MIDI_MAP); j = (if i < 0 then n + i else i)
      in if 0 \<le> j \<and> j < n then Inr (MIDI_MAP ! nat j) else Inl IndexError)"

section \<open>Notes (midi.py, class Note)\<close>

record Note =
  midi_start :: int
  midi_end :: int
  pitch :: int
  start_ms :: rat
  end_ms :: rat

definition mk_Note :: "int \<Rightarrow> int \<Rightarrow> int \<Rightarrow> Note" where
  \<comment> \<open>\<^verbatim>\<open>Note.__init__\<close>; \<open>start_ms\<close> and \<open>end_ms\<close> are the attributes \<^verbatim>\<open>start\<close>, \<^verbatim>\<open>end\<close>.\<close>
  "mk_Note s e p =
     \<lparr>midi_start = s, midi_end = e, pitch = p, start_ms = of_int s, end_ms = of_int e\<rparr>"

definition ms_scale_factor :: "rat \<Rightarrow> rat" where
  "ms_scale_factor tempo = (60000000 / tempo) / 480000"

definition rescale :: "rat \<Rightarrow> Note \<Rightarrow> Note" where
  \<comment> \<open>the two assignments of \<^verbatim>\<open>set_tempo\<close>\<close>
  "rescale tempo n =
     n\<lparr>start_ms := ms_scale_factor tempo * of_int (midi_start n),
       end_ms := ms_scale_factor tempo * of_int (midi_end n)\<rparr>"

definition set_tempo :: "rat \<Rightarrow> Note \<Rightarrow> error + Note" where
  \<comment> \<open>The float division \<^verbatim>\<open>60000000. / tempo\<close> raises for tempo 0.\<close>
  "set_tempo tempo n =
     (if tempo = 0 then Inl ZeroDivisionError else Inr (rescale tempo n))"

definition duration :: "Note \<Rightarrow> rat" where
  "duration n = end_ms n - start_ms n"

subsection \<open>Pitch folder\<close>

function fold_up :: "int \<Rightarrow> int" where
  \<comment> \<open>\<^verbatim>\<open>while pitch <= MIDI_LOW: pitch += 12\<close>\<close>
  "fold_up p = (if p \<le> MIDI_LOW then fold_up (p + 12) else p)"
  by pat_completeness auto
termination
  by (relation "measure (\<lambda>p. nat (MIDI_LOW + 1 - p))") auto

declare fold_up.simps [simp del]

function fold_down :: "int \<Rightarrow> int" where
  \<comment> \<open>\<^verbatim>\<open>while pitch >= MIDI_HIGH: pitch -= 12\<close>\<close>
  "fold_down p = (if p \<ge> MIDI_HIGH then fold_down (p - 12) else p)"
  by pat_completeness auto
termination
  by (relation "measure (\<lambda>p. nat (p + 1 - MIDI_HIGH))") auto

declare fold_down.simps [simp del]

definition folded_pitch :: "int \<Rightarrow> int" where
  \<comment> \<open>the value of the variable \<^verbatim>\<open>pitch\<close> after both loops of \<^verbatim>\<open>rel_pitch\<close>\<close>
  "folded_pitch p = fold_down (fold_up p)"

definition rel_pitch :: "Note \<Rightarrow> int" where
  "rel_pitch n = folded_pitch (pitch n) - MIDI_LOW"

section \<open>Timeline builder (CSVMidiNoteReader.to\_notes)\<close>

text \<open>
  A row of the reader: the six named fields, \<open>None\<close> where the line is too short
  (the \<^verbatim>\<open>csv.DictReader\<close> default).
\<close>

record midi_record =
  track :: "string option"
  time :: "string option"
  type :: "string option"
  channel :: "string option"
  "note" :: "string option"
  velocity :: "string option"

record notes_state =
  active_notes :: "int \<rightharpoonup> int"
  "notes" :: "Note list"

definition to_notes_step :: "notes_state \<Rightarrow> midi_record \<Rightarrow> error + notes_state" where
  \<comment> \<open>one iteration of \<^verbatim>\<open>for record in self\<close>\<close>
  "to_notes_step st r =
     (case note r of
        None \<Rightarrow> Inr st
      | Some ns \<Rightarrow>
          if ns = [] \<or> \<not> isdigit ns then Inr st
          else (case py_int ns of
                  Inl e \<Rightarrow> Inl e
                | Inr nt \<Rightarrow>
                   (case py_int_opt (time r) of
                      Inl e \<Rightarrow> Inl e
                    | Inr tm \<Rightarrow>
                        if type r = Some ''Note_on_c'' then
                          (if active_notes st nt = None
                           then Inr (st\<lparr>active_notes := (active_notes st)(nt \<mapsto> tm)\<rparr>)
                           else Inr st)
                        else if type r = Some ''Note_off_c'' then
                          (case active_notes st nt of
                             None \<Rightarrow> Inr st
                           | Some note_start \<Rightarrow>
                               Inr (st\<lparr>active_notes := (active_notes st)(nt := None),
                                       notes := notes st @ [mk_Note note_start tm nt]\<rparr>))
                        else Inr st)))"

fun to_notes_loop :: "notes_state \<Rightarrow> midi_record list \<Rightarrow> error + notes_state" where
  "to_notes_loop st [] = Inr st"
| "to_notes_loop st (r # rs) =
     (case to_notes_step st r of Inl e \<Rightarrow> Inl e | Inr st' \<Rightarrow> to_notes_loop st' rs)"

definition to_notes :: "midi_record list \<Rightarrow> error + Note list" where
  "to_notes rs =
     (case to_notes_loop \<lparr>active_notes = Map.empty, notes = []\<rparr> rs of
        Inl e \<Rightarrow> Inl e | Inr st \<Rightarrow> Inr (notes st))"

section \<open>Contour quantizer (CSVMidiNoteReader.to\_midi\_contour)\<close>

text \<open>
  The window bounds \<^verbatim>\<open>start_seconds\<close> and \<^verbatim>\<open>end_seconds\<close> are optional numbers; the
  source tests them by truth value, so \<open>None\<close> and \<open>0\<close> both mean "no bound".
\<close>

definition before_window :: "rat option \<Rightarrow> Note \<Rightarrow> bool" where
  \<comment> \<open>\<^verbatim>\<open>start_seconds and note.end < 1000 * start_seconds\<close>\<close>
  "before_window start_seconds n =
     (case start_seconds of None \<Rightarrow> False | Some s \<Rightarrow> s \<noteq> 0 \<and> end_ms n < 1000 * s)"

definition after_window :: "rat option \<Rightarrow> Note \<Rightarrow> bool" where
  \<comment> \<open>\<^verbatim>\<open>end_seconds and note.start > 1000 * end_seconds\<close>\<close>
  "after_window end_seconds n =
     (case end_seconds of None \<Rightarrow> False | Some e \<Rightarrow> e \<noteq> 0 \<and> start_ms n > 1000 * e)"

record quantizer =
  midi_contour :: "int list"
  music_time :: rat
  output_time :: rat

definition init_quantizer :: quantizer where
  "init_quantizer = \<lparr>midi_contour = [], music_time = 0, output_time = 0\<rparr>"

definition quaver_duration :: "rat \<Rightarrow> rat" where
  \<comment> \<open>duration of the dummy \<^verbatim>\<open>Note(0, 240, None)\<close> after \<^verbatim>\<open>set_tempo\<close>; its pitch is never
      read and is 0 here\<close>
  "quaver_duration tempo = duration (rescale tempo (mk_Note 0 240 0))"

text \<open>
  What the loop body does with a note before it reaches the emission step
  (\<^verbatim>\<open>rel_duration = ...\<close>): \<open>Skip\<close> is \<^verbatim>\<open>continue\<close>, \<open>Stop\<close> is \<^verbatim>\<open>break\<close>, and \<open>Emit\<close>
  carries the state with which control passes the check
  \<^verbatim>\<open>if music_time <= output_time: continue\<close>.
\<close>

datatype gate = Skip quantizer | Stop | Emit quantizer

definition before_emission :: "rat option \<Rightarrow> rat option \<Rightarrow> quantizer \<Rightarrow> Note \<Rightarrow> gate" where
  "before_emission start_seconds end_seconds st n =
     (if before_window start_seconds n
      then Skip (st\<lparr>music_time := end_ms n, output_time := end_ms n\<rparr>)
      else if after_window end_seconds n then Stop
      else (let st1 = st\<lparr>music_time := music_time st + duration n\<rparr>
            in if music_time st1 \<le> output_time st1 then Skip st1 else Emit st1))"

definition is_integer :: "rat \<Rightarrow> bool" where
  "is_integer r = (of_int \<lfloor>r\<rfloor> = r)"

definition int_of_float :: "rat \<Rightarrow> int" where
  \<comment> \<open>\<^verbatim>\<open>int(x)\<close> of a float truncates towards zero\<close>
  "int_of_float r = (if 0 \<le> r then \<lfloor>r\<rfloor> else \<lceil>r\<rceil>)"

definition round_f :: "rat \<Rightarrow> rat \<Rightarrow> rat \<Rightarrow> int" where
  \<comment> \<open>\<^verbatim>\<open>round_f = math.ceil if music_time > output_time else math.floor\<close>\<close>
  "round_f mt ot = (if mt > ot then ceiling else floor)"

definition emit :: "rat \<Rightarrow> quantizer \<Rightarrow> Note \<Rightarrow> quantizer" where
  \<comment> \<open>the emission step; a list times a count that is not positive is empty\<close>
  "emit qd st n =
     (let rel_duration = duration n / qd in
      if is_integer rel_duration then
        st\<lparr>output_time := output_time st + duration n,
           midi_contour := midi_contour st
              @ replicate (nat (int_of_float rel_duration)) (rel_pitch n)\<rparr>
      else if rel_duration < 1 then
        st\<lparr>output_time := output_time st + qd,
           midi_contour := midi_contour st @ [rel_pitch n]\<rparr>
      else
        (let rounded_int = round_f (music_time st) (output_time st) rel_duration
         in st\<lparr>output_time := output_time st + of_int rounded_int * qd,
               midi_contour := midi_contour st
                  @ replicate (nat rounded_int) (rel_pitch n)\<rparr>))"

fun walk :: "rat \<Rightarrow> rat option \<Rightarrow> rat option \<Rightarrow> quantizer \<Rightarrow> Note list \<Rightarrow> quantizer" where
  \<comment> \<open>\<^verbatim>\<open>for _, note in enumerate(self._notes)\<close>, from a given state\<close>
  "walk tempo ss es st [] = st"
| "walk tempo ss es st (n # ns) =
     (case before_emission ss es st (rescale tempo n) of
        Skip st' \<Rightarrow> walk tempo ss es st' ns
      | Stop \<Rightarrow> st
      | Emit st1 \<Rightarrow> walk tempo ss es (emit (quaver_duration tempo) st1 (rescale tempo n)) ns)"

fun emission_points ::
  "rat \<Rightarrow> rat option \<Rightarrow> rat option \<Rightarrow> quantizer \<Rightarrow> Note list \<Rightarrow> (quantizer \<times> Note) list" where
  \<comment> \<open>the same walk, recording each state and note with which the emission step is
      entered\<close>
  "emission_points tempo ss es st [] = []"
| "emission_points tempo ss es st (n # ns) =
     (case before_emission ss es st (rescale tempo n) of
        Skip st' \<Rightarrow> emission_points tempo ss es st' ns
      | Stop \<Rightarrow> []
      | Emit st1 \<Rightarrow>
          (st1, rescale tempo n)
          # emission_points tempo ss es
              (emit (quaver_duration tempo) st1 (rescale tempo n)) ns)"

fun join_symbols :: "int list \<Rightarrow> error + string" where
  \<comment> \<open>\<^verbatim>\<open>''.join(ff_config.MIDI_MAP[n] for n in midi_contour)\<close>\<close>
  "join_symbols [] = Inr []"
| "join_symbols (i # rest) =
     (case midi_map_get i of
        Inl e \<Rightarrow> Inl e
      | Inr c \<Rightarrow> (case join_symbols rest of Inl e \<Rightarrow> Inl e | Inr s \<Rightarrow> Inr (c # s)))"

definition to_midi_contour ::
  "rat \<Rightarrow> rat option \<Rightarrow> rat option \<Rightarrow> Note list \<Rightarrow> error + string" where
  \<comment> \<open>\<^verbatim>\<open>set_tempo\<close> of the dummy note raises first when the tempo is 0; otherwise the
      quaver duration is not 0 and no division raises\<close>
  "to_midi_contour tempo start_seconds end_seconds ns =
     (case set_tempo tempo (mk_Note 0 240 0) of
        Inl e \<Rightarrow> Inl e
      | Inr _ \<Rightarrow>
          join_symbols
            (midi_contour (walk tempo start_seconds end_seconds init_quantizer ns)))"

section \<open>Alias cleaner and deduplicator (build\_non\_user\_data.py)\<close>

definition STOP_WORDS :: "string set" where
  "STOP_WORDS = set [''a'', ''an'', ''the'', ''at'', ''by'', ''for'', ''in'', ''of'', ''on'',
                     ''to'', ''up'', ''and'', ''as'', ''but'', ''or'', ''nor'']"

definition is_letter :: "char \<Rightarrow> bool" where
  "is_letter c = ((65 \<le> (of_char c :: nat) \<and> (of_char c :: nat) \<le> 90)
                  \<or> (97 \<le> (of_char c :: nat) \<and> (of_char c :: nat) \<le> 122))"

definition sub_non_word_chars :: "string \<Rightarrow> string" where
  \<comment> \<open>\<^verbatim>\<open>NON_WORD_CHARS.sub('', alias)\<close> with \<^verbatim>\<open>NON_WORD_CHARS = [^a-zA-Z ]\<close>\<close>
  "sub_non_word_chars s = filter (\<lambda>c. is_letter c \<or> c = CHR '' '') s"

fun split_acc :: "string \<Rightarrow> string \<Rightarrow> string list" where
  \<comment> \<open>the second argument is the word read so far\<close>
  "split_acc [] cur = (if cur = [] then [] else [cur])"
| "split_acc (c # cs) cur =
     (if is_space c then (if cur = [] then split_acc cs [] else cur # split_acc cs [])
      else split_acc cs (cur @ [c]))"

definition split :: "string \<Rightarrow> string list" where
  \<comment> \<open>\<^verbatim>\<open>str.split()\<close>: the maximal runs of non-whitespace characters\<close>
  "split s = split_acc s []"

definition singular :: "string \<Rightarrow> string" where
  \<comment> \<open>\<^verbatim>\<open>w[:-1] if w.endswith('s') else w\<close>\<close>
  "singular w = (if w \<noteq> [] \<and> last w = CHR ''s'' then butlast w else w)"

definition british :: "string \<Rightarrow> string" where
  \<comment> \<open>\<^verbatim>\<open>w if not w == 'favorite' else 'favourite'\<close>\<close>
  "british w = (if w = ''favorite'' then ''favourite'' else w)"

definition clean_alias :: "string \<Rightarrow> string set" where
  "clean_alias alias =
     set (map british (map singular
       (filter (\<lambda>w. w \<noteq> [] \<and> w \<notin> STOP_WORDS)
          (split (sub_non_word_chars (lower alias))))))"

definition reclean :: "string set \<Rightarrow> string set" where
  \<comment> \<open>the cleaner applied again, to each token word of a canonical token set\<close>
  "reclean ts = \<Union> (clean_alias ` ts)"

fun first_pass :: "string set set \<Rightarrow> string list \<Rightarrow> (string set \<times> string) list" where
  \<comment> \<open>the first loop of \<^verbatim>\<open>deduplicate_aliases\<close>, from a given \<^verbatim>\<open>seen_aliases\<close>; the result
      is the list \<^verbatim>\<open>deduped_aliases\<close>\<close>
  "first_pass seen [] = []"
| "first_pass seen (alias # rest) =
     (let cleaned = clean_alias alias in
      if cleaned \<notin> seen then (cleaned, alias) # first_pass (insert cleaned seen) rest
      else first_pass seen rest)"

fun subset_pass :: "(string set \<times> string) list \<Rightarrow> string list" where
  \<comment> \<open>the second loop: the argument is \<^verbatim>\<open>deduped_aliases[i:]\<close>, its head the pair at \<open>i\<close>\<close>
  "subset_pass [] = []"
| "subset_pass ((cleaned, alias) # rest) =
     (if list_ex (\<lambda>p. cleaned \<subset> fst p) ((cleaned, alias) # rest)
      then subset_pass rest
      else alias # subset_pass rest)"

definition deduplicate_aliases :: "string list \<Rightarrow> string list" where
  "deduplicate_aliases aliases =
     sort (subset_pass (sort_key (\<lambda>c. card (fst c)) (first_pass {} aliases)))"

section \<open>Alias gatherer (gather\_aliases)\<close>

text \<open>
  The two inputs are lists of JSON objects; only the keys the function reads are
  kept: \<^verbatim>\<open>tune_id\<close> and \<^verbatim>\<open>alias\<close> of an alias record, \<^verbatim>\<open>tune_id\<close> (here
  \<open>setting_tune_id\<close>) and \<^verbatim>\<open>name\<close> of a setting. The dictionary \<^verbatim>\<open>aliases\<close> is an
  association list in insertion order; reading a missing key of the
  \<^verbatim>\<open>defaultdict(list)\<close> gives the empty list.
\<close>

record alias_record =
  tune_id :: string
  "alias" :: string

record setting =
  setting_tune_id :: string
  name :: string

type_synonym alias_dict = "(string \<times> string list) list"

definition dict_get :: "alias_dict \<Rightarrow> string \<Rightarrow> string list" where
  "dict_get d k = (case map_of d k of None \<Rightarrow> [] | Some v \<Rightarrow> v)"

fun int_keys :: "alias_record list \<Rightarrow> error + (int \<times> alias_record) list" where
  \<comment> \<open>the sort keys \<^verbatim>\<open>int(r['tune_id'])\<close>, computed in order; the first failure raises\<close>
  "int_keys [] = Inr []"
| "int_keys (r # rs) =
     (case py_int (tune_id r) of
        Inl e \<Rightarrow> Inl e
      | Inr k \<Rightarrow> (case int_keys rs of Inl e \<Rightarrow> Inl e | Inr ks \<Rightarrow> Inr ((k, r) # ks)))"

definition add_alias :: "alias_dict \<Rightarrow> alias_record \<Rightarrow> alias_dict" where
  \<comment> \<open>\<^verbatim>\<open>aliases[tid].append(alias)\<close>\<close>
  "add_alias d r =
     AList.update (tune_id r) (dict_get d (tune_id r) @ [lower (alias r)]) d"

definition add_name :: "alias_dict \<Rightarrow> setting \<Rightarrow> alias_dict" where
  \<comment> \<open>\<^verbatim>\<open>if not aliases[tid] or aliases[tid][0] != alias: aliases[tid].insert(0, alias)\<close>\<close>
  "add_name d t =
     (let tid = setting_tune_id t; a = lower (name t); l = dict_get d tid in
      if l = [] \<or> hd l \<noteq> a then AList.update tid (a # l) d else d)"

definition gather_aliases :: "alias_record list \<Rightarrow> setting list \<Rightarrow> error + alias_dict" where
  "gather_aliases alias_records tune_data =
     (case int_keys alias_records of
        Inl e \<Rightarrow> Inl e
      | Inr keyed \<Rightarrow>
          (let d1 = foldl add_alias [] (map snd (sort_key fst keyed));
               d2 = map (\<lambda>(tid, l). (tid, deduplicate_aliases l)) d1;
               d3 = foldl add_name d2 tune_data
           in if list_ex (\<lambda>(tid, l). l = []) d3 then Inl AssertionError else Inr d3))"

section \<open>Auxiliary predicate\<close>

definition is_lower :: "char \<Rightarrow> bool" where
  \<comment> \<open>a lower-case ASCII letter; used to state what the cleaner's tokens look like\<close>
  "is_lower c = (97 \<le> (of_char c :: nat) \<and> (of_char c :: nat) \<le> 122)"

section \<open>Properties of the pitch folder\<close>

lemma fold_up_gt: "MIDI_LOW < fold_up p"
  by (induction p rule: fold_up.induct) (subst fold_up.simps, simp)

lemma fold_up_mod: "fold_up p mod 12 = p mod 12"
  by (induction p rule: fold_up.induct) (subst fold_up.simps, simp)

lemma fold_down_lt: "fold_down p < MIDI_HIGH"
  by (induction p rule: fold_down.induct) (subst fold_down.simps, simp)

lemma fold_down_gt: "MIDI_LOW < p \<Longrightarrow> MIDI_LOW < fold_down p"
  by (induction p rule: fold_down.induct)
     (subst fold_down.simps, simp add: MIDI_LOW_def MIDI_HIGH_def)

lemma fold_down_mod: "fold_down p mod 12 = p mod 12"
  by (induction p rule: fold_down.induct) (subst fold_down.simps, simp)

text \<open>
  Claim C2. For every integer pitch, the pitch left by the two folding loops of
  \<^verbatim>\<open>rel_pitch\<close> is strictly greater than \<open>MIDI_LOW\<close> (48), strictly less than
  \<open>MIDI_HIGH\<close> (95) and congruent to the pitch modulo 12, and the value returned is
  that folded pitch minus \<open>MIDI_LOW\<close>.
\<close>

theorem C2_pitch_folder:
  "MIDI_LOW < folded_pitch (pitch n) \<and> folded_pitch (pitch n) < MIDI_HIGH
   \<and> folded_pitch (pitch n) mod 12 = pitch n mod 12
   \<and> rel_pitch n = folded_pitch (pitch n) - MIDI_LOW
   \<and> MIDI_LOW = 48 \<and> MIDI_HIGH = 95"
proof -
  have lo: "MIDI_LOW < folded_pitch (pitch n)"
    unfolding folded_pitch_def by (rule fold_down_gt) (rule fold_up_gt)
  have hi: "folded_pitch (pitch n) < MIDI_HIGH"
    unfolding folded_pitch_def by (rule fold_down_lt)
  have md: "folded_pitch (pitch n) mod 12 = pitch n mod 12"
    unfolding folded_pitch_def by (simp only: fold_down_mod fold_up_mod)
  have rp: "rel_pitch n = folded_pitch (pitch n) - MIDI_LOW"
    by (simp only: rel_pitch_def)
  have cs: "MIDI_LOW = 48 \<and> MIDI_HIGH = 95"
    by (simp only: MIDI_LOW_def MIDI_HIGH_def)
  from lo hi md rp cs show ?thesis by blast
qed

theorem C2_pitch_folder_witness:
  "MIDI_LOW < folded_pitch (pitch (mk_Note 0 240 100))
   \<and> folded_pitch (pitch (mk_Note 0 240 100)) < MIDI_HIGH
   \<and> folded_pitch (pitch (mk_Note 0 240 100)) mod 12 = 100 mod 12
   \<and> rel_pitch (mk_Note 0 240 100) = folded_pitch 100 - 48"
  using C2_pitch_folder [of "mk_Note 0 240 100"] by (simp add: mk_Note_def)

section \<open>Properties of the timeline builder\<close>

lemma is_digit_not_space: "is_digit c \<Longrightarrow> \<not> is_space c"
  by (auto simp: is_digit_def is_space_def)

lemma is_digit_not_special:
  "is_digit c \<Longrightarrow> c \<noteq> CHR ''_'' \<and> c \<noteq> CHR ''-'' \<and> c \<noteq> CHR ''+''"
  by (auto simp: is_digit_def)

lemma strip_digits:
  assumes "isdigit s"
  shows "strip s = s"
proof -
  from assms obtain c cs where s: "s = c # cs" and c: "is_digit c"
    by (cases s) (auto simp: isdigit_def)
  have front: "dropWhile is_space s = s"
    using s c by (simp add: is_digit_not_space)
  from assms have "rev s \<noteq> []" "is_digit (hd (rev s))"
    by (auto simp: isdigit_def list_all_iff hd_rev)
  then have "dropWhile is_space (rev s) = rev s"
    by (cases "rev s") (auto simp: is_digit_not_space)
  with front show ?thesis by (simp add: strip_def)
qed

lemma digit_groups_digits: "s \<noteq> [] \<Longrightarrow> list_all is_digit s \<Longrightarrow> digit_groups s"
  by (induction s rule: digit_groups.induct) (auto simp: is_digit_not_special)

lemma filter_digits: "list_all is_digit s \<Longrightarrow> filter (\<lambda>c. c \<noteq> CHR ''_'') s = s"
  by (induction s) (auto simp: is_digit_not_special)

text \<open>On a string that passed \<^verbatim>\<open>isdigit\<close>, \<^verbatim>\<open>int\<close> never raises.\<close>

lemma py_int_isdigit:
  assumes "isdigit s"
  shows "py_int s = Inr (digits_val s)"
proof -
  from assms obtain c cs where s: "s = c # cs" and c: "is_digit c"
    by (cases s) (auto simp: isdigit_def)
  from assms have g: "digit_groups s" and f: "filter (\<lambda>c. c \<noteq> CHR ''_'') s = s"
    by (auto simp: isdigit_def digit_groups_digits filter_digits)
  have "strip s = c # cs" using strip_digits [OF assms] s by simp
  then show ?thesis using g f c s
    by (simp add: py_int_def Let_def is_digit_not_special)
qed

text \<open>
  Claim C8. An \<^verbatim>\<open>off\<close> event (a record of type \<^verbatim>\<open>Note_off_c\<close> with a numeric pitch
  field and an integer time field) whose pitch has no open entry in \<open>active_notes\<close>
  produces no Note, leaves the note list and the open-note map as they are, and
  raises no error: the iteration returns the state unchanged, and the loop over the
  whole stream goes on as if the record were not there.
\<close>

theorem C8_unmatched_off_ignored:
  assumes "note r = Some ns" and "isdigit ns"
    and "type r = Some ''Note_off_c''"
    and "py_int_opt (time r) = Inr tm"
    and "active_notes st (digits_val ns) = None"
  shows "to_notes_step st r = Inr st
         \<and> to_notes_loop st (r # rs) = to_notes_loop st rs"
proof -
  have ne: "ns \<noteq> []" using assms(2) by (simp add: isdigit_def)
  have step: "to_notes_step st r = Inr st"
    using assms ne by (simp add: to_notes_step_def py_int_isdigit)
  then show ?thesis by simp
qed

theorem C8_unmatched_off_ignored_witness:
  "to_notes_step \<lparr>active_notes = Map.empty, notes = []\<rparr>
     \<lparr>track = Some ''1'', time = Some ''0'', type = Some ''Note_off_c'',
      channel = Some ''0'', note = Some ''60'', velocity = Some ''0''\<rparr>
   = Inr \<lparr>active_notes = Map.empty, notes = []\<rparr>
   \<and> to_notes [\<lparr>track = Some ''1'', time = Some ''0'', type = Some ''Note_off_c'',
      channel = Some ''0'', note = Some ''60'', velocity = Some ''0''\<rparr>] = Inr []"
proof -
  let ?r = "\<lparr>track = Some ''1'', time = Some ''0'', type = Some ''Note_off_c'',
      channel = Some ''0'', note = Some ''60'', velocity = Some ''0''\<rparr>"
  let ?st = "\<lparr>active_notes = Map.empty, notes = []\<rparr>"
  have d: "isdigit ''60''" by (simp add: isdigit_def is_digit_def)
  have t: "py_int_opt (Some ''0'') = Inr 0"
    by (simp add: py_int_opt_def py_int_def strip_def is_space_def digits_val_def
        digit_val_def is_digit_def)
  have "to_notes_step ?st ?r = Inr ?st
        \<and> to_notes_loop ?st (?r # []) = to_notes_loop ?st []"
    by (rule C8_unmatched_off_ignored [where ns = "''60''" and tm = 0]) (simp_all add: d t)
  then show ?thesis by (simp add: to_notes_def)
qed

section \<open>Properties of the contour quantizer\<close>

lemma quaver_duration_pos: "0 < tempo \<Longrightarrow> 0 < quaver_duration tempo"
  by (simp add: quaver_duration_def duration_def rescale_def mk_Note_def ms_scale_factor_def)

lemma quaver_duration_nonzero: "tempo \<noteq> 0 \<Longrightarrow> quaver_duration tempo \<noteq> 0"
  by (simp add: quaver_duration_def duration_def rescale_def mk_Note_def ms_scale_factor_def)

lemma emit_music_time: "music_time (emit qd st n) = music_time st"
  by (simp add: emit_def Let_def)

lemma emit_advance:
  assumes "0 < qd" and "output_time st < music_time st"
  shows "output_time st + duration n \<le> output_time (emit qd st n)"
proof -
  let ?r = "duration n / qd"
  show ?thesis
  proof (cases "is_integer ?r")
    case True
    then show ?thesis by (simp add: emit_def)
  next
    case False
    show ?thesis
    proof (cases "?r < 1")
      case True
      then have "duration n < qd" using assms(1) by (simp add: pos_divide_less_eq)
      then show ?thesis using False True by (simp add: emit_def)
    next
      case ge: False
      have "?r \<le> of_int \<lceil>?r\<rceil>" by (rule le_of_int_ceiling)
      then have "duration n \<le> of_int \<lceil>?r\<rceil> * qd"
        using assms(1) by (simp only: pos_divide_le_eq)
      then show ?thesis using False ge assms(2) by (simp add: emit_def round_f_def Let_def)
    qed
  qed
qed

lemma walk_never_behind:
  assumes "0 < tempo" and "music_time st \<le> output_time st"
  shows "music_time (walk tempo ss es st ns) \<le> output_time (walk tempo ss es st ns)"
  using assms(2)
proof (induction ns arbitrary: st)
  case Nil
  then show ?case by simp
next
  case (Cons a ns)
  show ?case
  proof (cases "before_emission ss es st (rescale tempo a)")
    case (Skip st')
    then have "music_time st' \<le> output_time st'"
      by (auto simp: before_emission_def Let_def split: if_splits)
    then show ?thesis using Skip Cons.IH by simp
  next
    case Stop
    then show ?thesis using Cons.prems by simp
  next
    case (Emit st1)
    then have lt: "output_time st1 < music_time st1"
      and m: "music_time st1 = music_time st + duration (rescale tempo a)"
      and out: "output_time st1 = output_time st"
      by (auto simp: before_emission_def Let_def split: if_splits)
    have "output_time st1 + duration (rescale tempo a)
          \<le> output_time (emit (quaver_duration tempo) st1 (rescale tempo a))"
      using quaver_duration_pos [OF assms(1)] lt by (rule emit_advance)
    then have "music_time (emit (quaver_duration tempo) st1 (rescale tempo a))
          \<le> output_time (emit (quaver_duration tempo) st1 (rescale tempo a))"
      using m out Cons.prems by (simp add: emit_music_time)
    then show ?thesis using Emit Cons.IH by simp
  qed
qed

text \<open>
  Claim C1 says that at every prefix of the walk \<open>\<bar>output_time - music_time\<bar>\<close> is at
  most one quaver duration. The walk keeps \<open>music_time \<le> output_time\<close>
  (\<open>walk_never_behind\<close>), but the lead of \<open>output_time\<close> is not bounded by a quaver: the
  rounding of a long note is always upwards, also when the output is already ahead.
  Claim C1, evaluated at tempo 125 on a note of 24 ms followed by a note of 360 ms
  (a tenth of a quaver, then a quaver and a half): after both notes \<open>music_time\<close> is
  384, \<open>output_time\<close> is 720 and the quaver is 240, so the two clocks differ by 336,
  more than one quaver.
\<close>

theorem C1_drift_exceeds_quaver:
  "music_time (walk 125 None None init_quantizer [mk_Note 0 24 60, mk_Note 24 384 62]) = 384
   \<and> output_time (walk 125 None None init_quantizer [mk_Note 0 24 60, mk_Note 24 384 62]) = 720
   \<and> quaver_duration 125 = 240
   \<and> quaver_duration 125
       < \<bar>output_time (walk 125 None None init_quantizer [mk_Note 0 24 60, mk_Note 24 384 62])
          - music_time (walk 125 None None init_quantizer [mk_Note 0 24 60, mk_Note 24 384 62])\<bar>"
  by code_simp

text \<open>
  Claim C5 as stated fails: at tempo 125 with \<^verbatim>\<open>end_seconds = 1\<close>, a note that starts at
  tick 1000, exactly at the window end of 1000 ms, does not stop the walk; it is
  processed and emits one symbol.
\<close>

theorem C5_counterexample:
  "start_ms (rescale 125 (mk_Note 1000 1240 60)) = 1000 * 1
   \<and> before_emission None (Some 1) init_quantizer (rescale 125 (mk_Note 1000 1240 60)) \<noteq> Stop
   \<and> to_midi_contour 125 None (Some 1) [mk_Note 1000 1240 60] = Inr ''m''"
  by code_simp

text \<open>
  Claim C5 (amended). With a non-zero window end \<open>e\<close>, a note that the window-start
  rule does not skip stops the walk exactly when its start time is strictly greater
  than \<open>1000 * e\<close>; the walk over a sequence then ends at that note, whatever follows
  it. A note that starts exactly at the window end is processed like any other.
\<close>

theorem C5_window_end:
  assumes "\<not> before_window ss (rescale tempo n)" and "e \<noteq> 0"
  shows "(before_emission ss (Some e) st (rescale tempo n) = Stop)
           = (1000 * e < start_ms (rescale tempo n))
         \<and> (1000 * e < start_ms (rescale tempo n) \<longrightarrow>
              walk tempo ss (Some e) st (pre @ n # post) = walk tempo ss (Some e) st pre)"
proof -
  have a: "(before_emission ss (Some e) st (rescale tempo n) = Stop)
           = (1000 * e < start_ms (rescale tempo n))"
    using assms by (simp add: before_emission_def after_window_def Let_def)
  have b: "walk tempo ss (Some e) st' (pre @ n # post) = walk tempo ss (Some e) st' pre"
    if "1000 * e < start_ms (rescale tempo n)" for st'
    using that
  proof (induction pre arbitrary: st')
    case Nil
    then show ?case using assms by (simp add: before_emission_def after_window_def)
  next
    case (Cons a pre)
    then show ?case by (simp split: gate.splits)
  qed
  from a b show ?thesis by blast
qed

theorem C5_window_end_witness:
  "before_emission None (Some 1) init_quantizer (rescale 125 (mk_Note 1001 1240 60)) = Stop
   \<and> walk 125 None (Some 1) init_quantizer
        ([mk_Note 0 240 60] @ mk_Note 1001 1240 60 # [mk_Note 1240 1480 62])
     = walk 125 None (Some 1) init_quantizer [mk_Note 0 240 60]"
proof -
  have h1: "\<not> before_window None (rescale 125 (mk_Note 1001 1240 60))"
    by (simp add: before_window_def)
  have h2: "(1::rat) \<noteq> 0" by simp
  have h3: "1000 * (1::rat) < start_ms (rescale 125 (mk_Note 1001 1240 60))"
    by (simp add: rescale_def mk_Note_def ms_scale_factor_def)
  show ?thesis
    using C5_window_end [OF h1 h2, of init_quantizer "[mk_Note 0 240 60]" "[mk_Note 1240 1480 62]"] h3
    by blast
qed

text \<open>
  Claim C9. Whenever control reaches the emission step, \<open>music_time > output_time\<close>
  holds, so the rounding function chosen by \<^verbatim>\<open>round_f\<close> is the ceiling at every
  emission step of every walk: the floor branch is never taken.
\<close>

theorem C9_floor_unreachable:
  "\<forall>(st, n) \<in> set (emission_points tempo ss es st0 ns).
     output_time st < music_time st
     \<and> round_f (music_time st) (output_time st) = ceiling"
proof (induction ns arbitrary: st0)
  case Nil
  then show ?case by simp
next
  case (Cons a ns)
  show ?case
  proof (cases "before_emission ss es st0 (rescale tempo a)")
    case (Skip st')
    then show ?thesis using Cons by simp
  next
    case Stop
    then show ?thesis by simp
  next
    case (Emit st1)
    then have "output_time st1 < music_time st1"
      by (auto simp: before_emission_def Let_def split: if_splits)
    then show ?thesis using Emit Cons by (simp add: round_f_def)
  qed
qed

theorem C9_floor_unreachable_witness:
  "emission_points 125 None None init_quantizer [mk_Note 0 360 60]
     = [(\<lparr>midi_contour = [], music_time = 360, output_time = 0\<rparr>,
         rescale 125 (mk_Note 0 360 60))]
   \<and> round_f 360 0 = ceiling"
proof -
  have e: "emission_points 125 None None init_quantizer [mk_Note 0 360 60]
     = [(\<lparr>midi_contour = [], music_time = 360, output_time = 0\<rparr>,
         rescale 125 (mk_Note 0 360 60))]"
    by code_simp
  from C9_floor_unreachable [of 125 None None init_quantizer "[mk_Note 0 360 60]"]
  have "round_f 360 0 = ceiling" unfolding e by simp
  with e show ?thesis by simp
qed

section \<open>Properties of the alias deduplicator\<close>

lemma finite_clean_alias: "finite (clean_alias a)"
  by (simp add: clean_alias_def)

lemma first_pass_pairs: "(c, a) \<in> set (first_pass seen xs) \<Longrightarrow> c = clean_alias a \<and> a \<in> set xs"
  by (induction xs arbitrary: seen) (auto simp: Let_def split: if_splits)

lemma first_pass_covers:
  "a \<in> set xs \<Longrightarrow> clean_alias a \<notin> seen \<Longrightarrow> clean_alias a \<in> fst ` set (first_pass seen xs)"
proof (induction xs arbitrary: seen)
  case Nil
  then show ?case by simp
next
  case (Cons x xs)
  show ?case
  proof (cases "clean_alias x = clean_alias a")
    case True
    then show ?thesis using Cons.prems by (simp add: Let_def)
  next
    case False
    then have "a \<in> set xs" using Cons.prems by auto
    then show ?thesis using Cons.IH [of seen] Cons.IH [of "insert (clean_alias x) seen"]
        Cons.prems False
      by (auto simp: Let_def)
  qed
qed

lemma subset_pass_mem:
  assumes "sorted (map (\<lambda>p. card (fst p)) ps)" and "\<forall>p \<in> set ps. finite (fst p)"
  shows "(a \<in> set (subset_pass ps))
         = (\<exists>c. (c, a) \<in> set ps \<and> \<not> (\<exists>p \<in> set ps. c \<subset> fst p))"
  using assms
proof (induction ps)
  case Nil
  show ?case by simp
next
  case (Cons x ps)
  obtain c0 a0 where x: "x = (c0, a0)" by (cases x)
  have fin: "finite c0" using Cons.prems(2) x by simp
  have le: "\<forall>p \<in> set ps. card c0 \<le> card (fst p)"
    using Cons.prems(1) x by simp
  have small: "\<not> c \<subset> c0" if "(c, b) \<in> set ps" for c b
  proof
    assume "c \<subset> c0"
    then have "card c < card c0" using fin by (rule psubset_card_mono [rotated])
    moreover have "card c0 \<le> card (fst (c, b))" using le that by blast
    ultimately show False by simp
  qed
  have srt: "sorted (map (\<lambda>p. card (fst p)) ps)" using Cons.prems(1) by simp
  have fins: "\<forall>p \<in> set ps. finite (fst p)" using Cons.prems(2) by simp
  have IH: "(a \<in> set (subset_pass ps))
         = (\<exists>c. (c, a) \<in> set ps \<and> \<not> (\<exists>p \<in> set ps. c \<subset> fst p))"
    using Cons.IH [OF srt fins] .
  let ?drop = "\<exists>p \<in> set ps. c0 \<subset> fst p"
  have unf: "(a \<in> set (subset_pass (x # ps)))
             = ((\<not> ?drop \<and> a = a0) \<or> a \<in> set (subset_pass ps))"
    unfolding x by (simp add: list_ex_iff) blast
  have rhs: "(\<exists>c. (c, a) \<in> set (x # ps) \<and> \<not> (\<exists>p \<in> set (x # ps). c \<subset> fst p))
             = ((\<not> ?drop \<and> a = a0)
                \<or> (\<exists>c. (c, a) \<in> set ps \<and> \<not> (\<exists>p \<in> set ps. c \<subset> fst p)))"
    (is "?L = (?A \<or> ?B)")
  proof
    assume ?L
    then obtain c where c: "(c, a) \<in> set (x # ps)"
      and k: "\<not> (\<exists>p \<in> set (x # ps). c \<subset> fst p)" by blast
    from k have k': "\<not> (\<exists>p \<in> set ps. c \<subset> fst p)" by simp
    from c have "(c, a) = (c0, a0) \<or> (c, a) \<in> set ps" unfolding x by simp
    then show "?A \<or> ?B"
    proof
      assume "(c, a) = (c0, a0)"
      then show ?thesis using k' by simp
    next
      assume "(c, a) \<in> set ps"
      then show ?thesis using k' by blast
    qed
  next
    assume "?A \<or> ?B"
    then show ?L
    proof
      assume ?A
      then have "(c0, a) \<in> set (x # ps)" and "\<not> (\<exists>p \<in> set (x # ps). c0 \<subset> fst p)"
        unfolding x by simp_all
      then show ?L by blast
    next
      assume ?B
      then obtain c where c: "(c, a) \<in> set ps"
        and k: "\<not> (\<exists>p \<in> set ps. c \<subset> fst p)" by blast
      have "\<not> c \<subset> c0" using small [OF c] .
      then have "\<not> (\<exists>p \<in> set (x # ps). c \<subset> fst p)" using k unfolding x by simp
      moreover have "(c, a) \<in> set (x # ps)" using c by simp
      ultimately show ?L by blast
    qed
  qed
  show ?case unfolding unf rhs IH ..
qed


lemma deduplicate_aliases_mem:
  "(a \<in> set (deduplicate_aliases xs))
   = (\<exists>c. (c, a) \<in> set (first_pass {} xs)
          \<and> \<not> (\<exists>p \<in> set (first_pass {} xs). c \<subset> fst p))"
proof -
  let ?ps = "sort_key (\<lambda>c. card (fst c)) (first_pass {} xs)"
  have s: "sorted (map (\<lambda>p. card (fst p)) ?ps)" by (rule sorted_sort_key)
  have f: "\<forall>p \<in> set ?ps. finite (fst p)"
  proof
    fix p assume "p \<in> set ?ps"
    then have "(fst p, snd p) \<in> set (first_pass {} xs)" by simp
    then have "fst p = clean_alias (snd p)" by (simp add: first_pass_pairs)
    then show "finite (fst p)" by (simp add: finite_clean_alias)
  qed
  show ?thesis
    using subset_pass_mem [OF s f, of a] by (simp add: deduplicate_aliases_def)
qed

text \<open>
  Claim C4. If the pairs of aliases \<open>A\<close> and \<open>B\<close> both survive the equal-set pass
  (they are in the list \<^verbatim>\<open>deduped_aliases\<close>) and the canonical token set of \<open>A\<close> is a
  strict subset of that of \<open>B\<close>, then the string \<open>A\<close> is not in the output of
  \<^verbatim>\<open>deduplicate_aliases\<close>.
\<close>

theorem C4_strict_subset_dropped:
  assumes "(cA, A) \<in> set (first_pass {} aliases)"
    and "(cB, B) \<in> set (first_pass {} aliases)"
    and "cA \<subset> cB"
  shows "A \<notin> set (deduplicate_aliases aliases)"
proof
  assume "A \<in> set (deduplicate_aliases aliases)"
  then obtain c where c: "(c, A) \<in> set (first_pass {} aliases)"
    and keep: "\<not> (\<exists>p \<in> set (first_pass {} aliases). c \<subset> fst p)"
    unfolding deduplicate_aliases_mem by blast
  have "c = cA" using c assms(1) first_pass_pairs by blast
  then have "cA \<subset> fst (cB, B)" and "\<not> (\<exists>p \<in> set (first_pass {} aliases). cA \<subset> fst p)"
    using keep assms(3) by simp_all
  then show False using assms(2) by blast
qed

theorem C4_strict_subset_dropped_witness:
  "(clean_alias ''the blackbird'', ''the blackbird'')
     \<in> set (first_pass {} [''the blackbird'', ''blackbird reel''])
   \<and> (clean_alias ''blackbird reel'', ''blackbird reel'')
     \<in> set (first_pass {} [''the blackbird'', ''blackbird reel''])
   \<and> clean_alias ''the blackbird'' \<subset> clean_alias ''blackbird reel''
   \<and> ''the blackbird'' \<notin> set (deduplicate_aliases [''the blackbird'', ''blackbird reel''])"
proof -
  have h1: "(clean_alias ''the blackbird'', ''the blackbird'')
     \<in> set (first_pass {} [''the blackbird'', ''blackbird reel''])" by code_simp
  have h2: "(clean_alias ''blackbird reel'', ''blackbird reel'')
     \<in> set (first_pass {} [''the blackbird'', ''blackbird reel''])" by code_simp
  have h3: "clean_alias ''the blackbird'' \<subset> clean_alias ''blackbird reel''" by code_simp
  from C4_strict_subset_dropped [OF h1 h2 h3] h1 h2 h3 show ?thesis by simp
qed

text \<open>
  Claim C6 as stated fails: the alias \<^verbatim>\<open>the\<close> has an empty canonical token set, and
  as the only alias of a list it is the output.
\<close>

theorem C6_counterexample:
  "clean_alias ''the'' = {} \<and> deduplicate_aliases [''the''] = [''the'']"
  by code_simp

lemma first_pass_all_seen:
  "\<forall>b \<in> set xs. clean_alias b \<in> seen \<Longrightarrow> first_pass seen xs = []"
  by (induction xs) (simp_all add: Let_def)

lemma deduplicate_all_empty:
  assumes "\<forall>b \<in> set aliases. clean_alias b = {}"
  shows "deduplicate_aliases aliases = take 1 aliases"
proof (cases aliases)
  case Nil
  then show ?thesis by (simp add: deduplicate_aliases_def)
next
  case (Cons a rest)
  have "first_pass {{}} rest = []"
    using assms Cons by (intro first_pass_all_seen) simp
  then have "first_pass {} aliases = [({}, a)]"
    using assms Cons by (simp add: Let_def)
  then show ?thesis using Cons by (simp add: deduplicate_aliases_def)
qed

lemma deduplicate_some_nonempty:
  assumes "\<exists>b \<in> set aliases. clean_alias b \<noteq> {}"
    and "a \<in> set (deduplicate_aliases aliases)"
  shows "clean_alias a \<noteq> {}"
proof
  assume empty: "clean_alias a = {}"
  from assms(2) obtain c where c: "(c, a) \<in> set (first_pass {} aliases)"
    and keep: "\<not> (\<exists>p \<in> set (first_pass {} aliases). c \<subset> fst p)"
    unfolding deduplicate_aliases_mem by blast
  from assms(1) obtain b where b: "b \<in> set aliases" "clean_alias b \<noteq> {}" by blast
  then have "clean_alias b \<in> fst ` set (first_pass {} aliases)"
    by (simp add: first_pass_covers)
  then obtain p where p: "p \<in> set (first_pass {} aliases)" "fst p = clean_alias b" by auto
  have "c = clean_alias a" using c first_pass_pairs by blast
  then have "c \<subset> fst p" using empty p b by auto
  then show False using keep p by blast
qed

text \<open>
  Claim C6 (amended). If some alias of the input list has a non-empty canonical
  token set, then no alias with an empty canonical token set is in the output of
  \<^verbatim>\<open>deduplicate_aliases\<close>: the empty set is a strict subset of every other set, so
  the subset pass drops it. If every alias of the input has an empty canonical token
  set, nothing filters it: the output is the first alias of the input.
\<close>

theorem C6_empty_set_dropped:
  "((\<exists>b \<in> set aliases. clean_alias b \<noteq> {}) \<longrightarrow>
      (\<forall>a \<in> set (deduplicate_aliases aliases). clean_alias a \<noteq> {}))
   \<and> ((\<forall>b \<in> set aliases. clean_alias b = {}) \<longrightarrow>
      deduplicate_aliases aliases = take 1 aliases)"
  using deduplicate_some_nonempty deduplicate_all_empty by blast

theorem C6_empty_set_dropped_witness:
  "deduplicate_aliases [''the'', ''the blackbird''] = [''the blackbird'']
   \<and> clean_alias ''the blackbird'' \<noteq> {}
   \<and> clean_alias ''the'' = {} \<and> clean_alias ''a'' = {}
   \<and> deduplicate_aliases [''the'', ''a''] = [''the'']"
proof -
  have e: "deduplicate_aliases [''the'', ''the blackbird''] = [''the blackbird'']"
    by code_simp
  have t: "clean_alias ''the'' = {}" and a: "clean_alias ''a'' = {}" by code_simp+
  have "clean_alias ''the blackbird'' \<noteq> {}" by code_simp
  then have h: "\<exists>b \<in> set [''the'', ''the blackbird'']. clean_alias b \<noteq> {}" by simp
  have h': "\<forall>b \<in> set [''the'', ''a'']. clean_alias b = {}" using t a by simp
  from C6_empty_set_dropped [of "[''the'', ''the blackbird'']"] h
  have "\<forall>a \<in> set (deduplicate_aliases [''the'', ''the blackbird'']). clean_alias a \<noteq> {}"
    by blast
  then have n: "clean_alias ''the blackbird'' \<noteq> {}" unfolding e by simp
  from C6_empty_set_dropped [of "[''the'', ''a'']"] h'
  have "deduplicate_aliases [''the'', ''a''] = take 1 [''the'', ''a'']" by blast
  then have "deduplicate_aliases [''the'', ''a''] = [''the'']" by simp
  with e t a n show ?thesis by simp
qed

text \<open>
  Claim C10. \<^verbatim>\<open>deduplicate_aliases\<close> maps every non-empty alias list to a non-empty
  list: a pair of \<^verbatim>\<open>deduped_aliases\<close> whose canonical token set is maximal in size is
  never dropped by the subset pass, so its alias is in the output.
\<close>

theorem C10_nonempty_output:
  assumes "aliases \<noteq> []"
  shows "deduplicate_aliases aliases \<noteq> []
     \<and> (\<forall>(c, a) \<in> set (first_pass {} aliases).
          (\<forall>p \<in> set (first_pass {} aliases). card (fst p) \<le> card c)
            \<longrightarrow> a \<in> set (deduplicate_aliases aliases))"
proof -
  let ?ps = "first_pass {} aliases"
  have fin: "finite (fst p)" if "p \<in> set ?ps" for p
    using that first_pass_pairs [of "fst p" "snd p" "{}" aliases] finite_clean_alias by simp
  have keep: "a \<in> set (deduplicate_aliases aliases)"
    if "(c, a) \<in> set ?ps" and mx: "\<forall>p \<in> set ?ps. card (fst p) \<le> card c" for c a
  proof -
    have "\<not> c \<subset> fst p" if "p \<in> set ?ps" for p
    proof
      assume "c \<subset> fst p"
      then have "card c < card (fst p)" using fin [OF that] by (rule psubset_card_mono [rotated])
      moreover have "card (fst p) \<le> card c" using mx that by blast
      ultimately show False by simp
    qed
    then have "\<not> (\<exists>p \<in> set ?ps. c \<subset> fst p)" by blast
    then show ?thesis using that(1) unfolding deduplicate_aliases_mem by blast
  qed
  have ne: "?ps \<noteq> []" using assms by (cases aliases) (simp_all add: Let_def)
  then obtain m where m: "m \<in> set ?ps" "\<forall>p \<in> set ?ps. card (fst p) \<le> card (fst m)"
  proof -
    let ?M = "Max ((\<lambda>p. card (fst p)) ` set ?ps)"
    have "?M \<in> (\<lambda>p. card (fst p)) ` set ?ps"
      using ne by (intro Max_in) simp_all
    then obtain m where "m \<in> set ?ps" "card (fst m) = ?M" by auto
    moreover have "\<forall>p \<in> set ?ps. card (fst p) \<le> ?M" by simp
    ultimately have "m \<in> set ?ps \<and> (\<forall>p \<in> set ?ps. card (fst p) \<le> card (fst m))"
      by simp
    then show ?thesis using that by blast
  qed
  then have "snd m \<in> set (deduplicate_aliases aliases)" using keep [of "fst m" "snd m"] by simp
  then have "deduplicate_aliases aliases \<noteq> []" by auto
  then show ?thesis using keep by auto
qed

theorem C10_nonempty_output_witness:
  "deduplicate_aliases [''the blackbird''] \<noteq> []"
proof -
  have h: "[''the blackbird''] \<noteq> []" by simp
  from C10_nonempty_output [OF h] show ?thesis by (rule conjunct1)
qed

section \<open>Properties of the alias cleaner\<close>

lemma is_lower_not_space: "is_lower c \<Longrightarrow> \<not> is_space c"
  by (auto simp: is_lower_def is_space_def)

lemma is_letter_lower_char: "is_letter (lower_char c) \<Longrightarrow> is_lower (lower_char c)"
  by (auto simp: is_letter_def is_lower_def lower_char_def split: if_splits)

lemma lower_char_id: "is_lower c \<Longrightarrow> lower_char c = c"
  by (simp add: is_lower_def lower_char_def)

lemma is_lower_letter: "is_lower c \<Longrightarrow> is_letter c"
  by (simp add: is_lower_def is_letter_def)

lemma filtered_chars:
  "c \<in> set (sub_non_word_chars (lower a)) \<Longrightarrow> is_lower c \<or> is_space c"
  by (auto simp: sub_non_word_chars_def lower_def is_letter_lower_char is_space_def)

lemma split_acc_words:
  "\<forall>c \<in> set s. is_lower c \<or> is_space c \<Longrightarrow> \<forall>c \<in> set cur. is_lower c \<Longrightarrow>
   w \<in> set (split_acc s cur) \<Longrightarrow> c \<in> set w \<Longrightarrow> is_lower c"
proof (induction s arbitrary: cur)
  case Nil
  then show ?case by (auto split: if_splits)
next
  case (Cons x s)
  show ?case
  proof (cases "is_space x")
    case True
    then show ?thesis using Cons.prems Cons.IH [of "[]"]
      by (auto split: if_splits)
  next
    case False
    then have "is_lower x" using Cons.prems(1) by simp
    then have "\<forall>c \<in> set (cur @ [x]). is_lower c" using Cons.prems(2) by simp
    then show ?thesis using False Cons.prems Cons.IH [of "cur @ [x]"] by simp
  qed
qed

lemma split_acc_one_word:
  "\<forall>c \<in> set s. \<not> is_space c \<Longrightarrow> cur @ s \<noteq> [] \<Longrightarrow> split_acc s cur = [cur @ s]"
  by (induction s arbitrary: cur) auto

lemma split_words_lower:
  assumes "w \<in> set (split (sub_non_word_chars (lower a)))" and "c \<in> set w"
  shows "is_lower c"
  using split_acc_words [of "sub_non_word_chars (lower a)" "[]" w c] assms filtered_chars
  by (auto simp: split_def)

lemma singular_subset: "c \<in> set (singular w) \<Longrightarrow> c \<in> set w"
  by (auto simp: singular_def dest: in_set_butlastD split: if_splits)

lemma british_lower: "\<forall>c \<in> set w. is_lower c \<Longrightarrow> c \<in> set (british w) \<Longrightarrow> is_lower c"
  by (auto simp: british_def is_lower_def split: if_splits)

lemma british_not_favorite: "british w \<noteq> ''favorite''"
  by (simp add: british_def)

lemma token_shape:
  assumes "w \<in> clean_alias a"
  shows "(\<forall>c \<in> set w. is_lower c) \<and> w \<noteq> ''favorite''"
proof -
  from assms obtain v where v: "v \<in> set (split (sub_non_word_chars (lower a)))"
    and w: "w = british (singular v)"
    by (auto simp: clean_alias_def)
  have "\<forall>c \<in> set (singular v). is_lower c"
    using v split_words_lower singular_subset by blast
  then have "\<forall>c \<in> set w. is_lower c" unfolding w using british_lower by blast
  then show ?thesis using w british_not_favorite by simp
qed

lemma clean_alias_token:
  assumes low: "\<forall>c \<in> set w. is_lower c" and ne: "w \<noteq> []" and st: "w \<notin> STOP_WORDS"
    and s: "last w \<noteq> CHR ''s''" and f: "w \<noteq> ''favorite''"
  shows "clean_alias w = {w}"
proof -
  have l: "lower w = w" unfolding lower_def using low by (simp add: lower_char_id map_idI)
  have n: "sub_non_word_chars w = w"
    unfolding sub_non_word_chars_def using low by (simp add: is_lower_letter)
  have "\<forall>c \<in> set w. \<not> is_space c" using low is_lower_not_space by blast
  then have sp: "split w = [w]" unfolding split_def using ne
    by (simp add: split_acc_one_word)
  show ?thesis
    using ne st s f by (simp add: clean_alias_def l n sp singular_def british_def)
qed

text \<open>
  Claim C7 as stated fails: the cleaner strips one trailing \<^verbatim>\<open>s\<close> each time it is
  applied, so \<^verbatim>\<open>grass\<close> is cleaned to the token \<^verbatim>\<open>gras\<close>, and cleaning that token again
  gives \<^verbatim>\<open>gra\<close>.
\<close>

theorem C7_counterexample:
  "clean_alias ''grass'' = {''gras''} \<and> reclean (clean_alias ''grass'') = {''gra''}
   \<and> reclean (clean_alias ''grass'') \<noteq> clean_alias ''grass''"
  by code_simp

text \<open>
  Claim C7 (amended). When no token produced by one application of the cleaner is
  empty, is a stopword or ends in \<^verbatim>\<open>s\<close>, cleaning each token again yields the same
  canonical token set as the single application.
\<close>

theorem C7_reclean_fixed:
  assumes "\<forall>w \<in> clean_alias a. w \<noteq> [] \<and> w \<notin> STOP_WORDS \<and> last w \<noteq> CHR ''s''"
  shows "reclean (clean_alias a) = clean_alias a"
proof -
  have "clean_alias w = {w}" if "w \<in> clean_alias a" for w
    using that assms token_shape [OF that] by (intro clean_alias_token) simp_all
  then show ?thesis unfolding reclean_def by auto
qed

theorem C7_reclean_fixed_witness:
  "clean_alias ''The Blackbird!'' = {''blackbird''}
   \<and> reclean (clean_alias ''The Blackbird!'') = clean_alias ''The Blackbird!''"
proof -
  have e: "clean_alias ''The Blackbird!'' = {''blackbird''}" by code_simp
  have h: "\<forall>w \<in> clean_alias ''The Blackbird!''. w \<noteq> [] \<and> w \<notin> STOP_WORDS \<and> last w \<noteq> CHR ''s''"
    unfolding e by code_simp
  from C7_reclean_fixed [OF h] e show ?thesis by simp
qed

section \<open>Properties of the alias gatherer\<close>

text \<open>After a setting is merged, its lower-cased name heads the list of its tune.\<close>

lemma add_name_first:
  "dict_get (add_name d t) (setting_tune_id t) \<noteq> []
   \<and> hd (dict_get (add_name d t) (setting_tune_id t)) = lower (name t)"
  by (simp add: add_name_def dict_get_def Let_def update_conv')

text \<open>
  Claim C3 says that the lower-cased display name is the first element of the tune's
  list and occurs at no later position. The name is put first, but an occurrence
  further down the deduplicated list is not removed.
  Claim C3, evaluated on tune 1 with the aliases \<^verbatim>\<open>Apple Tree\<close> and \<^verbatim>\<open>Blackbird\<close> and
  the display name \<^verbatim>\<open>Blackbird\<close>: the gathered list is
  \<^verbatim>\<open>blackbird, apple tree, blackbird\<close>, with the name at positions 0 and 2.
\<close>

theorem C3_duplicate_name:
  "gather_aliases
     [\<lparr>tune_id = ''1'', alias = ''Apple Tree''\<rparr>, \<lparr>tune_id = ''1'', alias = ''Blackbird''\<rparr>]
     [\<lparr>setting_tune_id = ''1'', name = ''Blackbird''\<rparr>]
   = Inr [(''1'', [''blackbird'', ''apple tree'', ''blackbird''])]"
  by code_simp

end
